theory Spec2Isabelle
  imports Main "HOL-Library.Word" "HOL-Library.Sublist"
begin

section \<open>JavaScript values used by the frontend\<close>

text \<open>
  A JavaScript string is a sequence of UTF-16 code units. Numbers that the frontend
  handles (session identifiers, HTTP status codes, millisecond timestamps) are integers
  in the safe range, so they are modelled as \<open>int\<close>.
\<close>

type_synonym jsstring = "16 word list"

definition js :: "string \<Rightarrow> jsstring" where
  "js s = map of_char s"

text \<open>
  \<open>String.prototype.trim\<close> removes leading and trailing code units that are
  ECMAScript WhiteSpace or LineTerminator.
\<close>

definition isWhiteSpace :: "16 word \<Rightarrow> bool" where
  "isWhiteSpace c =
     (c = 0x09 \<or> c = 0x0A \<or> c = 0x0B \<or> c = 0x0C \<or> c = 0x0D \<or> c = 0x20 \<or> c = 0xA0
      \<or> c = 0x1680 \<or> (0x2000 \<le> c \<and> c \<le> 0x200A) \<or> c = 0x2028 \<or> c = 0x2029
      \<or> c = 0x202F \<or> c = 0x205F \<or> c = 0x3000 \<or> c = 0xFEFF)"

definition trim :: "jsstring \<Rightarrow> jsstring" where
  "trim s = rev (dropWhile isWhiteSpace (rev (dropWhile isWhiteSpace s)))"

text \<open>Decimal rendering of an integer, as a template literal \<open>${n}\<close> produces it.\<close>

fun digits :: "nat \<Rightarrow> jsstring" where
  "digits n = (if n < 10 then [of_nat (48 + n)] else digits (n div 10) @ [of_nat (48 + n mod 10)])"

declare digits.simps [simp del]

definition toString :: "int \<Rightarrow> jsstring" where
  "toString i = (if i < 0 then js ''-'' @ digits (nat (- i)) else digits (nat i))"

text \<open>A thrown value: the constructor that built it and its \<open>message\<close>.\<close>

datatype error_kind = Error | TypeError | SyntaxError

datatype js_error = Thrown (kind: error_kind) (message: jsstring)

section \<open>The fetch wrapper (frontend/src/api/client.ts)\<close>

text \<open>
  The call handed to \<open>fetch\<close>: the URL and the init object after both spreads.
\<close>

record fetch_call =
  url :: jsstring
  credentials :: jsstring
  headers :: "(jsstring \<times> jsstring) list"
  http_method :: "jsstring option"
  body :: "jsstring option"

text \<open>The \<open>options\<close> argument of \<open>request\<close>, with the keys its callers pass.\<close>

record request_init =
  opt_headers :: "(jsstring \<times> jsstring) list option"
  opt_method :: "jsstring option"
  opt_body :: "jsstring option"

text \<open>
  A response whose body has arrived: \<open>status\<close>, what \<open>res.text()\<close> resolves to, and
  what \<open>res.json()\<close> settles to (the body parsed as JSON, or the parser's error when
  the body is not JSON). The cast \<open>as T\<close> checks nothing at run time: the callers below
  take the parsed body as the \<open>json\<close> value it is.
\<close>

record 'a response =
  status :: int
  body_text :: jsstring
  body_json :: "js_error + 'a"

text \<open>\<open>Response.ok\<close>: the status is in the range 200 to 299.\<close>

definition ok :: "'a response \<Rightarrow> bool" where
  "ok res = (200 \<le> status res \<and> status res \<le> 299)"

text \<open>\<open>fetch\<close> rejects (network failure) or resolves with a response.\<close>

datatype 'a fetch_outcome = Rejected js_error | Resolved "'a response"

text \<open>
  The values \<open>JSON.stringify\<close> is applied to and \<open>JSON.parse\<close> yields (integers
  suffice for the numbers here). A later entry of an object wins over an earlier one with
  the same key, as in \<open>JSON.parse\<close>.
\<close>

datatype json =
    JNull
  | JBool bool
  | JNumber int
  | JString jsstring
  | JArray "json list"
  | JObject "(jsstring \<times> json) list"

definition own_property :: "(jsstring \<times> json) list \<Rightarrow> jsstring \<Rightarrow> json option" where
  "own_property entries key = map_of (rev entries) key"

text \<open>What reading a property yields: \<open>undefined\<close>, or a value.\<close>

datatype jsvalue = Undefined | Json json

text \<open>
  What the module takes from its surroundings: the configured base URL, the browser's
  \<open>JSON.stringify\<close> and \<open>fetch\<close> with the backend behind it.
\<close>

record 'a platform =
  API_BASE :: jsstring
  JSON_stringify :: "json \<Rightarrow> jsstring"
  fetch :: "fetch_call \<Rightarrow> 'a fetch_outcome"

text \<open>
  \<open>request\<close> first builds the call. The merged \<open>headers\<close> entry is written before
  \<open>...options\<close>, so an \<open>options.headers\<close> replaces it.
\<close>

definition request_call :: "'a platform \<Rightarrow> jsstring \<Rightarrow> request_init \<Rightarrow> fetch_call" where
  "request_call P path options =
     \<lparr> url = API_BASE P @ path,
       credentials = js ''include'',
       headers = (case opt_headers options of
                    None \<Rightarrow> [(js ''Content-Type'', js ''application/json'')]
                  | Some h \<Rightarrow> h),
       http_method = opt_method options,
       body = opt_body options \<rparr>"

text \<open>What \<open>request\<close> does once \<open>fetch\<close> has settled: \<open>Inl\<close> is a throw.\<close>

definition request_settle :: "'a fetch_outcome \<Rightarrow> js_error + 'a" where
  "request_settle outcome =
     (case outcome of
        Rejected e \<Rightarrow> Inl e
      | Resolved res \<Rightarrow>
          if \<not> ok res
          then Inl (Thrown Error
                 (js ''Request failed ('' @ toString (status res) @ js ''): '' @ body_text res))
          else body_json res)"

definition request :: "'a platform \<Rightarrow> jsstring \<Rightarrow> request_init \<Rightarrow> js_error + 'a" where
  "request P path options = request_settle (fetch P (request_call P path options))"

datatype role = User | Assistant | System

text \<open>
  The \<open>content\<close> of a message is declared a string; the chat view also stores there
  whatever \<open>res.sql\<close> evaluates to.
\<close>

record Message =
  msg_id :: int
  role :: role
  content :: jsvalue
  created_at :: jsstring

text \<open>
  The interface \<open>ChatResponse\<close>, as a shape of parsed bodies: an object whose \<open>sql\<close> and
  \<open>raw_model_output\<close> are strings and whose \<open>explanation\<close> is absent, null or a string.
\<close>

definition ChatResponse :: "json \<Rightarrow> bool" where
  "ChatResponse j =
     (case j of
        JObject entries \<Rightarrow>
          (case own_property entries (js ''sql'') of Some (JString s) \<Rightarrow> True | _ \<Rightarrow> False)
          \<and> (case own_property entries (js ''explanation'') of
                None \<Rightarrow> True | Some JNull \<Rightarrow> True | Some (JString s) \<Rightarrow> True | _ \<Rightarrow> False)
          \<and> (case own_property entries (js ''raw_model_output'') of
                Some (JString s) \<Rightarrow> True | _ \<Rightarrow> False)
      | _ \<Rightarrow> False)"

record Session =
  sess_id :: int
  title :: "jsstring option"
  schema_id :: "int option"
  sess_created_at :: jsstring
  sess_updated_at :: jsstring

record Schema =
  sch_id :: int
  sch_name :: jsstring
  description :: "jsstring option"
  raw_schema :: jsstring
  sch_created_at :: jsstring
  sch_updated_at :: jsstring

definition sendMessage_path :: "int \<Rightarrow> jsstring" where
  "sendMessage_path sessionId = js ''/api/sessions/'' @ toString sessionId @ js ''/messages''"

definition sendMessage_options :: "'a platform \<Rightarrow> jsstring \<Rightarrow> request_init" where
  "sendMessage_options P content' =
     \<lparr> opt_headers = None,
       opt_method = Some (js ''POST''),
       opt_body = Some (JSON_stringify P (JObject [(js ''content'', JString content')])) \<rparr>"

text \<open>
  \<open>sendMessage\<close> returns what \<open>request\<close> returns: the parsed body, declared a
  \<open>ChatResponse\<close> and not checked to be one.
\<close>

definition sendMessage :: "json platform \<Rightarrow> int \<Rightarrow> jsstring \<Rightarrow> js_error + json" where
  "sendMessage P sessionId content' =
     request P (sendMessage_path sessionId) (sendMessage_options P content')"

section \<open>The chat view (components/Chat.tsx)\<close>

record UIMessage = Message +
  isStreaming :: "bool option"

record chat_state =
  messages :: "UIMessage list"
  input :: jsstring
  loading :: bool
  error :: "jsstring option"
  lastSql :: "json option"

text \<open>One reading of the clock: \<open>Date.now()\<close> and \<open>new Date().toISOString()\<close>.\<close>

record clock =
  now :: int
  iso :: jsstring

text \<open>
  What the closure of a started submission holds while it awaits: the session, the
  trimmed text and \<open>!prefersReducedMotion\<close>.
\<close>

record pending =
  p_sessionId :: int
  p_content :: jsstring
  p_streaming :: bool

text \<open>
  \<open>handleSubmit\<close> up to its first \<open>await\<close>. \<open>!sessionId\<close> holds for \<open>null\<close> and for
  \<open>0\<close>; \<open>!input.trim()\<close> holds when the trimmed input is empty. The second component is
  the submission that is now awaiting, if any.
\<close>

definition handleSubmit_begin ::
  "int option \<Rightarrow> bool \<Rightarrow> clock \<Rightarrow> chat_state \<Rightarrow> chat_state \<times> pending option" where
  "handleSubmit_begin sessionId prefersReducedMotion t s =
     (case sessionId of
        None \<Rightarrow> (s, None)
      | Some sid \<Rightarrow>
          if sid = 0 \<or> trim (input s) = [] then (s, None)
          else
            let content' = trim (input s);
                optimisticMessage =
                  \<lparr> msg_id = now t, role = User, content = Json (JString content'),
                    created_at = iso t, isStreaming = None \<rparr>
            in (s\<lparr> error := None, input := [],
                    messages := messages s @ [optimisticMessage], loading := True \<rparr>,
                Some \<lparr> p_sessionId = sid, p_content = content',
                       p_streaming = (\<not> prefersReducedMotion) \<rparr>))"

text \<open>
  The body of the \<open>try\<close>: the dynamic import of the client module (which may fail), then
  \<open>sendMessage\<close>. The second component lists the fetch calls issued.
\<close>

definition submit_request ::
  "json platform \<Rightarrow> js_error option \<Rightarrow> pending
     \<Rightarrow> (js_error + json) \<times> fetch_call list" where
  "submit_request P import_failure p =
     (case import_failure of
        Some e \<Rightarrow> (Inl e, [])
      | None \<Rightarrow>
          (sendMessage P (p_sessionId p) (p_content p),
           [request_call P (sendMessage_path (p_sessionId p)) (sendMessage_options P (p_content p))]))"

text \<open>
  \<open>res.sql\<close> on a parsed body: reading a property of \<open>null\<close> throws a \<open>TypeError\<close> (its
  message is the engine's); an object yields its entry or \<open>undefined\<close>; a boolean, a number,
  a string or an array has no property \<open>sql\<close>.
\<close>

definition read_sql :: "json \<Rightarrow> js_error + jsvalue" where
  "read_sql res =
     (case res of
        JNull \<Rightarrow> Inl (Thrown TypeError (js ''Cannot read properties of null''))
      | JObject entries \<Rightarrow>
          Inr (case own_property entries (js ''sql'') of None \<Rightarrow> Undefined | Some v \<Rightarrow> Json v)
      | _ \<Rightarrow> Inr Undefined)"

text \<open>\<open>setLastSql(res)\<close>: the state cell holds \<open>null\<close> or a value.\<close>

definition nullable :: "json \<Rightarrow> json option" where
  "nullable res = (case res of JNull \<Rightarrow> None | _ \<Rightarrow> Some res)"

text \<open>
  The rest of \<open>handleSubmit\<close>, once the \<open>try\<close> body has settled, applied to the state
  the view is in at that moment. On a returned body, \<open>setLastSql\<close> runs first; building the
  assistant message reads \<open>res.sql\<close>, and a throw there is caught like any other.
\<close>

definition handleSubmit_settle ::
  "pending \<Rightarrow> clock \<Rightarrow> js_error + json \<Rightarrow> chat_state \<Rightarrow> chat_state" where
  "handleSubmit_settle p t result s =
     (case result of
        Inr res \<Rightarrow>
          (case read_sql res of
             Inr v \<Rightarrow>
               let assistantMessage =
                     \<lparr> msg_id = now t + 1, role = Assistant, content = v, created_at = iso t,
                       isStreaming = Some (p_streaming p) \<rparr>
               in s\<lparr> lastSql := nullable res, messages := messages s @ [assistantMessage],
                      loading := False \<rparr>
           | Inl err \<Rightarrow>
               s\<lparr> lastSql := nullable res, error := Some (message err), loading := False \<rparr>)
      | Inl err \<Rightarrow> s\<lparr> error := Some (message err), loading := False \<rparr>)"

text \<open>
  One run of \<open>handleSubmit\<close> from the submit event to the end of \<open>finally\<close> when nothing
  else updates the view while it awaits. (The transition system below has the general
  case, where the settling meets the state that other events have left.)
\<close>

definition handleSubmit ::
  "json platform \<Rightarrow> js_error option \<Rightarrow> int option \<Rightarrow> bool \<Rightarrow> clock \<Rightarrow> clock
     \<Rightarrow> chat_state \<Rightarrow> chat_state \<times> fetch_call list" where
  "handleSubmit P import_failure sessionId prefersReducedMotion t1 t2 s =
     (case handleSubmit_begin sessionId prefersReducedMotion t1 s of
        (s', None) \<Rightarrow> (s', [])
      | (s', Some p) \<Rightarrow>
          (case submit_request P import_failure p of
             (result, calls) \<Rightarrow> (handleSubmit_settle p t2 result s', calls)))"

subsection \<open>The component as a transition system\<close>

text \<open>
  The view with its props, its state, the submissions that are awaiting and the
  \<open>listMessages\<close> loads that are awaiting.
\<close>

record chat_view =
  sessionId :: "int option"
  prefersReducedMotion :: bool
  state :: chat_state
  inflight :: "pending list"
  loads :: "int list"

text \<open>
  The events: the form's submit event, the settling of a started submission with what its
  \<open>try\<close> body threw or returned, a change of the textarea, a click on a suggestion, a
  change of the \<open>sessionId\<close> prop, the settling of a \<open>listMessages\<close> load (the loaded array
  taken at its declared type \<open>Message[]\<close>), a change of the motion preference.
\<close>

datatype event =
    Submit clock
  | Settle pending clock "js_error + json"
  | Change jsstring
  | Suggestion jsstring
  | SelectSession "int option"
  | Loaded int "js_error + Message list"
  | MotionPreference bool

text \<open>\<open>disabled={sessionId == null || loading}\<close>, on the textarea and on the button.\<close>

definition controls_disabled :: "chat_view \<Rightarrow> bool" where
  "controls_disabled v = (sessionId v = None \<or> loading (state v))"

definition suggestions :: "jsstring list" where
  "suggestions =
     [js ''Total revenue per day for the last 30 days'',
      js ''Top 10 customers by total spend'',
      js ''Orders by status for the last 90 days'']"

text \<open>
  One event of the view; \<open>None\<close> when the event cannot occur in that state. A submit
  event and a change of the textarea need enabled controls; the suggestion buttons are
  rendered when \<open>sessionId != null && input.length === 0\<close>; the effect on \<open>sessionId\<close>
  runs when the prop changes.
\<close>

fun step :: "event \<Rightarrow> chat_view \<Rightarrow> chat_view option" where
  "step (Submit t) v =
     (if controls_disabled v then None
      else case handleSubmit_begin (sessionId v) (prefersReducedMotion v) t (state v) of
             (s', None) \<Rightarrow> Some (v\<lparr> state := s' \<rparr>)
           | (s', Some p) \<Rightarrow> Some (v\<lparr> state := s', inflight := inflight v @ [p] \<rparr>))"
| "step (Settle p t result) v =
     (if p \<in> set (inflight v)
      then Some (v\<lparr> state := handleSubmit_settle p t result (state v),
                     inflight := remove1 p (inflight v) \<rparr>)
      else None)"
| "step (Change x) v =
     (if controls_disabled v then None
      else Some (v\<lparr> state := (state v)\<lparr> input := x \<rparr> \<rparr>))"
| "step (Suggestion x) v =
     (if sessionId v \<noteq> None \<and> input (state v) = [] \<and> x \<in> set suggestions
      then Some (v\<lparr> state := (state v)\<lparr> input := x \<rparr> \<rparr>)
      else None)"
| "step (SelectSession sid) v =
     (if sid = sessionId v then None
      else case sid of
             None \<Rightarrow>
               Some (v\<lparr> sessionId := sid, state := (state v)\<lparr> messages := [], lastSql := None \<rparr> \<rparr>)
           | Some n \<Rightarrow>
               if n = 0
               then Some (v\<lparr> sessionId := sid,
                              state := (state v)\<lparr> messages := [], lastSql := None \<rparr> \<rparr>)
               else Some (v\<lparr> sessionId := sid, loads := loads v @ [n] \<rparr>))"
| "step (Loaded n result) v =
     (if n \<in> set (loads v)
      then Some (v\<lparr> loads := remove1 n (loads v),
                     state :=
                       (case result of
                          Inr data \<Rightarrow>
                            (state v)\<lparr> messages :=
                              map (\<lambda>m. \<lparr> msg_id = msg_id m, role = role m, content = content m,
                                          created_at = created_at m, isStreaming = Some False \<rparr>)
                                data \<rparr>
                        | Inl err \<Rightarrow> (state v)\<lparr> error := Some (message err) \<rparr>) \<rparr>)
      else None)"
| "step (MotionPreference b) v = Some (v\<lparr> prefersReducedMotion := b \<rparr>)"

fun run :: "event list \<Rightarrow> chat_view \<Rightarrow> chat_view option" where
  "run [] v = Some v"
| "run (e # es) v = (case step e v of None \<Rightarrow> None | Some v' \<Rightarrow> run es v')"

text \<open>The view as mounted: the initial state, and the effect's first run.\<close>

definition mount :: "int option \<Rightarrow> bool \<Rightarrow> chat_view" where
  "mount sid reduced =
     \<lparr> sessionId = sid,
       prefersReducedMotion = reduced,
       state = \<lparr> messages = [], input = [], loading = False, error = None, lastSql = None \<rparr>,
       inflight = [],
       loads = (case sid of None \<Rightarrow> [] | Some n \<Rightarrow> if n = 0 then [] else [n]) \<rparr>"

section \<open>The application shell (AppShell.tsx)\<close>

record app_state =
  ready :: bool
  schemas :: "Schema list"
  sessions :: "Session list"
  activeSessionId :: "int option"
  activeSchemaId :: "int option"
  app_error :: "jsstring option"

definition handleChangeSchema :: "int option \<Rightarrow> app_state \<Rightarrow> app_state" where
  "handleChangeSchema schemaId s = s\<lparr> activeSchemaId := schemaId \<rparr>"

definition handleSchemaCreated :: "Schema \<Rightarrow> app_state \<Rightarrow> app_state" where
  "handleSchemaCreated schema s =
     s\<lparr> schemas := schemas s @ [schema], activeSchemaId := Some (sch_id schema) \<rparr>"

text \<open>
  The payload of \<open>createSession\<close>: \<open>initialSchemaId ?? undefined\<close> leaves the key out
  when the argument is \<open>null\<close>.
\<close>

record create_payload =
  new_title :: "jsstring option"
  new_schema_id :: "int option"

definition handleCreateSession_payload :: "int option \<Rightarrow> create_payload" where
  "handleCreateSession_payload initialSchemaId =
     \<lparr> new_title = Some [], new_schema_id = initialSchemaId \<rparr>"

definition handleCreateSession_settle :: "js_error + Session \<Rightarrow> app_state \<Rightarrow> app_state" where
  "handleCreateSession_settle result s =
     (case result of
        Inr session \<Rightarrow>
          s\<lparr> sessions := session # sessions s,
              activeSessionId := Some (sess_id session),
              activeSchemaId := schema_id session \<rparr>
      | Inl err \<Rightarrow> s\<lparr> app_error := Some (message err) \<rparr>)"

section \<open>The generation pipeline of the backend\<close>

text \<open>
  The backend (session service, model service) is not among the repository's files at
  hand. The parts of it that the properties below are about are modelled from the
  specification's sections 3, 4.3 and 4.4, over plain character strings.
\<close>

record Turn =
  sequence_id :: nat
  turn_role :: role
  turn_text :: string
  turn_created_at :: nat

text \<open>
  Modelled from the spec: the History Store, an append-only, per-session ordered log of
  turns (oldest first), with \<open>HistoryStore.append\<close> and the "most recent N" retrieval
  \<open>HistoryStore.last\<close>, which returns an ordered sequence.
\<close>

type_synonym history_store = "int \<Rightarrow> Turn list"

definition HistoryStore_append :: "history_store \<Rightarrow> int \<Rightarrow> Turn \<Rightarrow> history_store" where
  "HistoryStore_append store session_id turn = store (session_id := store session_id @ [turn])"

definition HistoryStore_last :: "history_store \<Rightarrow> int \<Rightarrow> nat \<Rightarrow> Turn list" where
  "HistoryStore_last store session_id n =
     drop (length (store session_id) - n) (store session_id)"

text \<open>
  Modelled from the spec: the ordering of turns, by \<open>created_at\<close> and then by
  \<open>sequence_id\<close> as tie-break.
\<close>

definition turn_before :: "Turn \<Rightarrow> Turn \<Rightarrow> bool" where
  "turn_before a b =
     (turn_created_at a < turn_created_at b
      \<or> (turn_created_at a = turn_created_at b \<and> sequence_id a \<le> sequence_id b))"

text \<open>Modelled from the spec: the fixed size of the context window, K = 5.\<close>

definition K :: nat where
  "K = 5"

text \<open>
  Modelled from the spec: step 2 of the Turn Orchestrator (record question), which
  appends a user turn whose text is the question.
\<close>

definition record_question :: "history_store \<Rightarrow> int \<Rightarrow> string \<Rightarrow> nat \<Rightarrow> nat \<Rightarrow> history_store" where
  "record_question store session_id question seq created =
     HistoryStore_append store session_id
       \<lparr> sequence_id = seq, turn_role = User, turn_text = question, turn_created_at = created \<rparr>"

text \<open>
  Modelled from the spec: the ContextWindow of step 4 (build context), the last K turns
  of the session's history, fetched after the question has been recorded.
\<close>

definition context_window :: "history_store \<Rightarrow> int \<Rightarrow> Turn list" where
  "context_window store session_id = HistoryStore_last store session_id K"

text \<open>
  Modelled from the spec: the whitespace that trimming removes, taken to be the ASCII
  whitespace of \<open>str.strip()\<close>, and the trimming itself.
\<close>

definition is_space :: "char \<Rightarrow> bool" where
  "is_space c =
     (c = CHR 0x09 \<or> c = CHR 0x0A \<or> c = CHR 0x0B \<or> c = CHR 0x0C \<or> c = CHR 0x0D
      \<or> c = CHR 0x1C \<or> c = CHR 0x1D \<or> c = CHR 0x1E \<or> c = CHR 0x1F \<or> c = CHR 0x20)"

definition strip :: "string \<Rightarrow> string" where
  "strip s = rev (dropWhile is_space (rev (dropWhile is_space s)))"

text \<open>
  Modelled from the spec: the fence delimiter sequence, and the opening delimiter with
  the explicit language tag.
\<close>

definition fence :: string where
  "fence = ''```''"

definition sql_fence :: string where
  "sql_fence = fence @ ''sql''"

text \<open>
  Modelled from the spec: the scan for a delimiter. The earliest occurrence wins; the
  result is the text before it and the text after it.
\<close>

fun find_delimiter :: "string \<Rightarrow> string \<Rightarrow> (string \<times> string) option" where
  "find_delimiter pat [] = (if pat = [] then Some ([], []) else None)"
| "find_delimiter pat (c # cs) =
     (if prefix pat (c # cs) then Some ([], drop (length pat) (c # cs))
      else case find_delimiter pat cs of
             None \<Rightarrow> None
           | Some (before, after) \<Rightarrow> Some (c # before, after))"

text \<open>
  Modelled from the spec: the interior of the first fenced block that the given opening
  delimiter starts and the next fence closes.
\<close>

definition fenced_block :: "string \<Rightarrow> string \<Rightarrow> string option" where
  "fenced_block opening raw =
     (case find_delimiter opening raw of
        None \<Rightarrow> None
      | Some (before, rest) \<Rightarrow>
          (case find_delimiter fence rest of
             None \<Rightarrow> None
           | Some (interior, after) \<Rightarrow> Some interior))"

record GenerationResult =
  result_sql :: string
  result_explanation :: "string option"
  raw_output :: string

text \<open>
  Modelled from the spec: the Output Parser of section 4.3. An SQL-tagged block first,
  then any fenced block (the interior of either is trimmed), then the whole trimmed
  text; the explanation is always null.
\<close>

definition parse :: "string \<Rightarrow> GenerationResult" where
  "parse raw =
     \<lparr> result_sql =
         (case fenced_block sql_fence raw of
            Some interior \<Rightarrow> strip interior
          | None \<Rightarrow>
              (case fenced_block fence raw of
                 Some interior \<Rightarrow> strip interior
               | None \<Rightarrow> strip raw)),
       result_explanation = None,
       raw_output = raw \<rparr>"

text \<open>
  A fenced block is a pair of delimiters: the text holds two fences that do not
  overlap.
\<close>

definition has_fenced_block :: "string \<Rightarrow> bool" where
  "has_fenced_block raw =
     (case find_delimiter fence raw of
        None \<Rightarrow> False
      | Some (before, rest) \<Rightarrow> find_delimiter fence rest \<noteq> None)"

section \<open>Auxiliary notions and sample values\<close>

text \<open>The number that a string of decimal digits denotes.\<close>

definition digits_value :: "jsstring \<Rightarrow> nat" where
  "digits_value ds = foldl (\<lambda>a c. 10 * a + (unat c - 48)) 0 ds"

text \<open>
  The invariant of the chat view: at most one submission is awaiting, and \<open>loading\<close> is
  set exactly while one is.
\<close>

definition single_flight :: "chat_view \<Rightarrow> bool" where
  "single_flight v =
     (length (inflight v) \<le> 1 \<and> (inflight v \<noteq> [] \<longleftrightarrow> loading (state v)))"

text \<open>
  The events that leave the message list as it is and neither start nor settle a
  submission: typing, a suggestion, a change of the motion preference, a switch to
  another session (its load is a later event), a load that fails.
\<close>

definition keeps_messages :: "event \<Rightarrow> bool" where
  "keeps_messages e =
     (case e of
        Submit t \<Rightarrow> False
      | Settle p t result \<Rightarrow> False
      | Change x \<Rightarrow> True
      | Suggestion x \<Rightarrow> True
      | SelectSession sid \<Rightarrow> (case sid of None \<Rightarrow> False | Some n \<Rightarrow> n \<noteq> 0)
      | Loaded n result \<Rightarrow> (case result of Inl err \<Rightarrow> True | Inr data \<Rightarrow> False)
      | MotionPreference b \<Rightarrow> True)"

text \<open>
  Sample backends: one answers every call with status 500, one with a body of the
  declared shape, one with the empty object, one with \<open>null\<close>.
\<close>

definition select_one :: json where
  "select_one =
     JObject [(js ''sql'', JString (js ''SELECT 1;'')),
              (js ''explanation'', JNull),
              (js ''raw_model_output'', JString (js ''SELECT 1;''))]"

definition answering :: "jsstring \<Rightarrow> js_error + json \<Rightarrow> json platform" where
  "answering text_of_body parsed =
     \<lparr> API_BASE = js ''http://localhost:8000'',
       JSON_stringify = (\<lambda>j. []),
       fetch = (\<lambda>c. Resolved \<lparr> status = 200, body_text = text_of_body, body_json = parsed \<rparr>) \<rparr>"

definition failing_backend :: "json platform" where
  "failing_backend =
     \<lparr> API_BASE = js ''http://localhost:8000'',
       JSON_stringify = (\<lambda>j. []),
       fetch = (\<lambda>c. Resolved \<lparr> status = 500, body_text = js ''Internal Server Error'',
                                  body_json = Inl (Thrown SyntaxError []) \<rparr>) \<rparr>"

definition answering_backend :: "json platform" where
  "answering_backend = answering [] (Inr select_one)"

definition empty_object_backend :: "json platform" where
  "empty_object_backend = answering (js ''{}'') (Inr (JObject []))"

definition null_backend :: "json platform" where
  "null_backend = answering (js ''null'') (Inr JNull)"

text \<open>The submission of \<open>"hi"\<close> in session 7, as the closure holds it.\<close>

definition hi_in_7 :: pending where
  "hi_in_7 = \<lparr> p_sessionId = 7, p_content = js ''hi'', p_streaming = True \<rparr>"

text \<open>
  The view of session 7 after \<open>"hi"\<close> has been typed; after it has been submitted at time
  1000; and after, while it awaits, a suggestion has been clicked and session 8 selected.
\<close>

definition asked_hi :: chat_view where
  "asked_hi =
     \<lparr> sessionId = Some 7, prefersReducedMotion = False,
       state = \<lparr> messages = [], input = js ''hi'', loading = False, error = None, lastSql = None \<rparr>,
       inflight = [], loads = [7] \<rparr>"

definition hi_message :: UIMessage where
  "hi_message =
     \<lparr> msg_id = 1000, role = User, content = Json (JString (js ''hi'')), created_at = js ''t1'',
       isStreaming = None \<rparr>"

definition awaiting_hi :: chat_view where
  "awaiting_hi =
     \<lparr> sessionId = Some 7, prefersReducedMotion = False,
       state = \<lparr> messages = [hi_message], input = [], loading = True, error = None,
                 lastSql = None \<rparr>,
       inflight = [hi_in_7], loads = [7] \<rparr>"

definition awaiting_hi_elsewhere :: chat_view where
  "awaiting_hi_elsewhere =
     \<lparr> sessionId = Some 8, prefersReducedMotion = False,
       state = \<lparr> messages = [hi_message], input = js ''Top 10 customers by total spend'',
                 loading = True, error = None, lastSql = None \<rparr>,
       inflight = [hi_in_7], loads = [7, 8] \<rparr>"

text \<open>A fresh chat state in which the user has typed \<open>" hi "\<close>.\<close>

definition typed_hi :: chat_state where
  "typed_hi = \<lparr> messages = [], input = js '' hi '', loading = False, error = None, lastSql = None \<rparr>"

text \<open>A history store in which every session has twelve turns, numbered 1 to 12.\<close>

definition twelve_turns :: history_store where
  "twelve_turns =
     (\<lambda>_. map (\<lambda>i. \<lparr> sequence_id = i, turn_role = (if even i then Assistant else User),
                       turn_text = ''t'', turn_created_at = 100 + i \<rparr>) [1..<13])"

section \<open>Properties of the fetch wrapper\<close>

lemma request_failed_message:
  "sublist (toString n) (js ''Request failed ('' @ toString n @ js ''): '' @ t)
   \<and> sublist t (js ''Request failed ('' @ toString n @ js ''): '' @ t)"
proof
  show "sublist (toString n) (js ''Request failed ('' @ toString n @ js ''): '' @ t)"
    unfolding sublist_def by blast
  have "js ''Request failed ('' @ toString n @ js ''): '' @ t
        = (js ''Request failed ('' @ toString n @ js ''): '') @ t @ []"
    by simp
  then show "sublist t (js ''Request failed ('' @ toString n @ js ''): '' @ t)"
    unfolding sublist_def by blast
qed

text \<open>
  C8, as the code has it. For every response: with a status that is not ok the wrapper
  throws an \<open>Error\<close> whose message contains the status code and the body text, and
  returns nothing; with an ok status it settles as \<open>res.json()\<close> does, so it returns
  the parsed body when the body parses and rethrows the parser's error when it does
  not. A value is returned exactly when the status is ok and the body parses, and the
  value is the parsed body.
\<close>

theorem request_response:
  assumes "fetch P (request_call P path options) = Resolved res"
  shows "(\<not> ok res \<longrightarrow>
            (\<exists>msg. request P path options = Inl (Thrown Error msg)
                   \<and> sublist (toString (status res)) msg \<and> sublist (body_text res) msg))
       \<and> (ok res \<longrightarrow> request P path options = body_json res)
       \<and> ((\<exists>v. request P path options = Inr v)
            \<longleftrightarrow> ok res \<and> (\<exists>v. body_json res = Inr v))
       \<and> (\<forall>v. request P path options = Inr v \<longrightarrow> body_json res = Inr v)"
  using assms request_failed_message [of "status res" "body_text res"]
  by (auto simp: request_def request_settle_def)

theorem request_response_witness:
  "request \<lparr> API_BASE = [], JSON_stringify = (\<lambda>j. []),
             fetch = (\<lambda>c. Resolved \<lparr> status = 404, body_text = js ''gone'',
                                       body_json = Inl (Thrown SyntaxError []) \<rparr>) \<rparr>
       [] \<lparr> opt_headers = None, opt_method = None, opt_body = None \<rparr>
     = (Inl (Thrown Error (js ''Request failed (404): gone'')) :: js_error + json)
   \<and> request answering_backend [] \<lparr> opt_headers = None, opt_method = None, opt_body = None \<rparr>
     = Inr select_one"
  using request_response
    [of "\<lparr> API_BASE = [], JSON_stringify = (\<lambda>j. []),
            fetch = (\<lambda>c. Resolved \<lparr> status = 404, body_text = js ''gone'',
                       body_json = (Inl (Thrown SyntaxError []) :: js_error + json) \<rparr>) \<rparr>"
        "[]" "\<lparr> opt_headers = None, opt_method = None, opt_body = None \<rparr>"
        "\<lparr> status = 404, body_text = js ''gone'',
           body_json = (Inl (Thrown SyntaxError []) :: js_error + json) \<rparr>"]
    request_response
    [of answering_backend "[]" "\<lparr> opt_headers = None, opt_method = None, opt_body = None \<rparr>"
        "\<lparr> status = 200, body_text = [], body_json = Inr select_one \<rparr>"]
  by (simp add: request_def request_settle_def ok_def toString_def digits.simps js_def
        answering_backend_def answering_def)

text \<open>
  C8 as stated fails: a response with status 200 and an empty body is ok, and the
  wrapper throws the parser's error instead of returning.
\<close>

theorem request_ok_not_json_counterexample:
  "ok \<lparr> status = 200, body_text = [],
        body_json = (Inl (Thrown SyntaxError (js ''Unexpected end of JSON input''))
                      :: js_error + json) \<rparr>
   \<and> request_settle (Resolved \<lparr> status = 200, body_text = [],
        body_json = (Inl (Thrown SyntaxError (js ''Unexpected end of JSON input''))
                      :: js_error + json) \<rparr>)
     = Inl (Thrown SyntaxError (js ''Unexpected end of JSON input''))"
  by (simp add: ok_def request_settle_def)

subsection \<open>The path of a session's messages determines the session\<close>

lemma digit_unit:
  assumes "d < 10"
  shows "unat (of_nat (48 + d) :: 16 word) = 48 + d"
proof -
  have "unat (of_nat (48 + d) :: 16 word) = (48 + d) mod 2 ^ LENGTH(16)"
    by (rule unat_of_nat)
  also have "\<dots> = 48 + d" using assms by simp
  finally show ?thesis .
qed

lemma digit_unit': "d < 10 \<Longrightarrow> unat (48 + of_nat d :: 16 word) = 48 + d"
  using digit_unit [of d] by simp

lemma digit_not_minus: "d < 10 \<Longrightarrow> (of_nat (48 + d) :: 16 word) \<noteq> 0x2D"
proof
  assume d: "d < 10" and eq: "(of_nat (48 + d) :: 16 word) = 0x2D"
  have "unat (of_nat (48 + d) :: 16 word) = unat (0x2D :: 16 word)"
    by (simp only: eq)
  then have "48 + d = unat (0x2D :: 16 word)"
    by (simp only: digit_unit [OF d])
  then show False by simp
qed

lemma digits_value_digits: "digits_value (digits n) = n"
proof (induction n rule: digits.induct)
  case (1 n)
  show ?case
  proof (cases "n < 10")
    case True
    then show ?thesis by (simp add: digits.simps digits_value_def digit_unit')
  next
    case False
    have "digits n = digits (n div 10) @ [of_nat (48 + n mod 10)]"
      using False by (subst digits.simps) simp
    then have "digits_value (digits n) = 10 * digits_value (digits (n div 10)) + n mod 10"
      by (simp add: digits_value_def digit_unit')
    with 1 False show ?thesis by simp
  qed
qed

lemma digits_inject: "digits n = digits m \<Longrightarrow> n = m"
  by (metis digits_value_digits)

lemma digits_not_minus: "x \<in> set (digits n) \<Longrightarrow> x \<noteq> 0x2D"
proof (induction n rule: digits.induct)
  case (1 n)
  show ?case
  proof (cases "n < 10")
    case True
    with 1(2) have x: "x = of_nat (48 + n)" by (simp add: digits.simps)
    show ?thesis unfolding x by (rule digit_not_minus [OF True])
  next
    case False
    have "digits n = digits (n div 10) @ [of_nat (48 + n mod 10)]"
      using False by (subst digits.simps) simp
    with 1(2) consider "x \<in> set (digits (n div 10))" | "x = of_nat (48 + n mod 10)" by auto
    then show ?thesis
    proof cases
      case 1 
      with "1.IH" False show ?thesis by simp
    next
      case 2
      have "n mod 10 < 10" by simp
      then show ?thesis unfolding 2 by (rule digit_not_minus)
    qed
  qed
qed

lemma digits_nonempty: "digits n \<noteq> []"
  by (subst digits.simps) simp

lemma toString_inject: "toString i = toString j \<Longrightarrow> i = j"
proof -
  assume eq: "toString i = toString j"
  have neg: "hd (toString k) = 0x2D \<longleftrightarrow> k < 0" for k
  proof (cases "k < 0")
    case True
    then show ?thesis by (simp add: toString_def js_def)
  next
    case False
    then have "hd (toString k) \<in> set (digits (nat k))"
      using digits_nonempty by (simp add: toString_def)
    with False show ?thesis using digits_not_minus by blast
  qed
  from eq neg [of i] neg [of j] have s: "i < 0 \<longleftrightarrow> j < 0" by simp
  show "i = j"
  proof (cases "i < 0")
    case True
    with s eq have "digits (nat (- i)) = digits (nat (- j))" by (simp add: toString_def)
    then have "nat (- i) = nat (- j)" by (rule digits_inject)
    with True s show ?thesis by simp
  next
    case False
    with s eq have "digits (nat i) = digits (nat j)" by (simp add: toString_def)
    then have "nat i = nat j" by (rule digits_inject)
    with False s show ?thesis by simp
  qed
qed

lemma sendMessage_path_inject: "sendMessage_path i = sendMessage_path j \<Longrightarrow> i = j"
  by (simp add: sendMessage_path_def toString_inject)

text \<open>
  C6, as the code has it. \<open>sendMessage\<close> issues one call: a POST to the base URL followed
  by \<open>/api/sessions/<session id>/messages\<close>, whose body is the JSON text of the object
  with the single key \<open>content\<close> holding the submitted string. The path determines the
  session identifier. When \<open>sendMessage\<close> returns, the response was ok and the value is its
  parsed body; and whatever the parsed body of an ok response is, that is the value
  returned. So the value has the fields \<open>sql\<close>, \<open>explanation\<close> and \<open>raw_model_output\<close> of a
  \<open>ChatResponse\<close> exactly when the body that the server sent has them.
\<close>

theorem sendMessage_wire:
  "request_call P (sendMessage_path n) (sendMessage_options P c)
     = \<lparr> url = API_BASE P @ js ''/api/sessions/'' @ toString n @ js ''/messages'',
         credentials = js ''include'',
         headers = [(js ''Content-Type'', js ''application/json'')],
         http_method = Some (js ''POST''),
         body = Some (JSON_stringify P (JObject [(js ''content'', JString c)])) \<rparr>
   \<and> sendMessage P n c
       = request_settle (fetch P (request_call P (sendMessage_path n) (sendMessage_options P c)))
   \<and> (sendMessage_path n = sendMessage_path n' \<longrightarrow> n = n')
   \<and> (sendMessage P n c = Inr r \<longrightarrow>
        (\<exists>res. fetch P (request_call P (sendMessage_path n) (sendMessage_options P c)) = Resolved res
               \<and> ok res \<and> body_json res = Inr r))
   \<and> (fetch P (request_call P (sendMessage_path n) (sendMessage_options P c)) = Resolved res'
        \<and> ok res' \<and> body_json res' = Inr b \<longrightarrow> sendMessage P n c = Inr b)"
  using sendMessage_path_inject [of n n']
  by (auto simp: request_call_def sendMessage_path_def sendMessage_options_def sendMessage_def
        request_def request_settle_def split: fetch_outcome.splits if_splits)

text \<open>The wire contract at session 7 with a backend that sends a \<open>ChatResponse\<close>.\<close>

theorem sendMessage_wire_witness:
  "url (request_call answering_backend (sendMessage_path 7)
          (sendMessage_options answering_backend (js ''hi'')))
     = js ''http://localhost:8000/api/sessions/7/messages''
   \<and> sendMessage answering_backend 7 (js ''hi'') = Inr select_one
   \<and> ChatResponse select_one"
  using sendMessage_wire [of answering_backend 7 "js ''hi''" 7 select_one
      "\<lparr> status = 200, body_text = [], body_json = Inr select_one \<rparr>" select_one]
  by (simp add: sendMessage_def request_def request_settle_def answering_backend_def answering_def
        ok_def toString_def digits.simps js_def ChatResponse_def select_one_def own_property_def)

text \<open>
  C6 as stated fails in its response half: to a 200 response with the body \<open>{}\<close>,
  \<open>sendMessage\<close> returns the empty object, which has none of the three fields.
\<close>

theorem sendMessage_shape_counterexample:
  "sendMessage empty_object_backend 7 (js ''hi'') = Inr (JObject [])
   \<and> \<not> ChatResponse (JObject [])"
  by (simp add: sendMessage_def request_def request_settle_def empty_object_backend_def
        answering_def ok_def ChatResponse_def own_property_def)

section \<open>Properties of the chat view\<close>

lemma trim_empty_iff: "trim s = [] \<longleftrightarrow> list_all isWhiteSpace s"
proof -
  have "trim s = [] \<longleftrightarrow> (\<forall>x \<in> set (dropWhile isWhiteSpace s). isWhiteSpace x)"
    by (simp add: trim_def)
  also have "\<dots> \<longleftrightarrow> dropWhile isWhiteSpace s = []"
  proof (cases "dropWhile isWhiteSpace s")
    case Nil
    show ?thesis unfolding Nil by simp
  next
    case (Cons a as)
    then have "\<not> isWhiteSpace (hd (dropWhile isWhiteSpace s))"
      using hd_dropWhile [of isWhiteSpace s] by simp
    with Cons show ?thesis by auto
  qed
  also have "\<dots> \<longleftrightarrow> list_all isWhiteSpace s"
    by (simp add: list_all_iff)
  finally show ?thesis .
qed

lemma handleSubmit_begin_rejected:
  "sid = None \<or> sid = Some 0 \<or> trim (input s) = [] \<Longrightarrow> handleSubmit_begin sid reduced t s = (s, None)"
  by (auto simp: handleSubmit_begin_def split: option.splits)

lemma handleSubmit_begin_accepted:
  "n \<noteq> 0 \<Longrightarrow> trim (input s) \<noteq> [] \<Longrightarrow>
   handleSubmit_begin (Some n) reduced t s =
     (s\<lparr> error := None, input := [],
         messages := messages s @ [\<lparr> msg_id = now t, role = User,
                                     content = Json (JString (trim (input s))),
                                     created_at = iso t, isStreaming = None \<rparr>],
         loading := True \<rparr>,
      Some \<lparr> p_sessionId = n, p_content = trim (input s), p_streaming = (\<not> reduced) \<rparr>)"
  by (simp add: handleSubmit_begin_def Let_def)

text \<open>
  C7. A submission that targets no session (\<open>sessionId\<close> is \<open>null\<close>, or the falsy \<open>0\<close>) or
  whose input is empty or consists of whitespace only is rejected by the guard: the run
  of \<open>handleSubmit\<close> leaves the whole state as it was, records no turn and issues no
  fetch call; as an event of the view it changes nothing and leaves nothing awaiting.
\<close>

theorem handleSubmit_rejects_blank:
  assumes "sid = None \<or> sid = Some 0 \<or> list_all isWhiteSpace (input s)"
  shows "handleSubmit_begin sid reduced t1 s = (s, None)
       \<and> handleSubmit P import_failure sid reduced t1 t2 s = (s, [])
       \<and> (sessionId v = sid \<and> prefersReducedMotion v = reduced \<and> state v = s
            \<and> \<not> controls_disabled v \<longrightarrow> step (Submit t1) v = Some v)"
proof -
  have b: "handleSubmit_begin sid reduced t1 s = (s, None)"
    using assms handleSubmit_begin_rejected [of sid s reduced t1] by (auto simp: trim_empty_iff)
  then show ?thesis by (auto simp: handleSubmit_def)
qed

text \<open>A whitespace-only input in session 7 changes nothing and issues no call.\<close>

theorem handleSubmit_rejects_blank_witness:
  "handleSubmit answering_backend None (Some 7) False \<lparr> now = 1000, iso = js ''t1'' \<rparr>
      \<lparr> now = 2000, iso = js ''t2'' \<rparr> (typed_hi \<lparr> input := js ''   '' \<rparr>)
   = (typed_hi \<lparr> input := js ''   '' \<rparr>, [])
   \<and> step (Submit \<lparr> now = 1000, iso = js ''t1'' \<rparr>)
        ((mount (Some 7) False) \<lparr> state := typed_hi \<lparr> input := js ''   '' \<rparr> \<rparr>)
     = Some ((mount (Some 7) False) \<lparr> state := typed_hi \<lparr> input := js ''   '' \<rparr> \<rparr>)"
proof -
  have "list_all isWhiteSpace (input (typed_hi \<lparr> input := js ''   '' \<rparr>))"
    by (simp add: js_def isWhiteSpace_def)
  then have h: "Some (7::int) = None \<or> Some (7::int) = Some 0
      \<or> list_all isWhiteSpace (input (typed_hi \<lparr> input := js ''   '' \<rparr>))" by simp
  have e: "\<not> controls_disabled ((mount (Some 7) False) \<lparr> state := typed_hi \<lparr> input := js ''   '' \<rparr> \<rparr>)"
    by (simp add: controls_disabled_def mount_def typed_hi_def)
  show ?thesis
    using e handleSubmit_rejects_blank [OF h, of False "\<lparr> now = 1000, iso = js ''t1'' \<rparr>"
        answering_backend None "\<lparr> now = 2000, iso = js ''t2'' \<rparr>"
        "(mount (Some 7) False) \<lparr> state := typed_hi \<lparr> input := js ''   '' \<rparr> \<rparr>"]
    by (simp add: mount_def)
qed

subsection \<open>A submission among the other events of the view\<close>

text \<open>
  A run of \<open>handleSubmit\<close> with nothing in between is a submit event followed by the
  settling of the submission it started.
\<close>

lemma handleSubmit_as_events:
  assumes "\<not> controls_disabled v" and "inflight v = []"
    and "handleSubmit_begin (sessionId v) (prefersReducedMotion v) t1 (state v) = (s1, Some p)"
  shows "run [Submit t1, Settle p t2 (fst (submit_request P import_failure p))] v
           = Some (v\<lparr> state := fst (handleSubmit P import_failure (sessionId v)
                                        (prefersReducedMotion v) t1 t2 (state v)),
                       inflight := [] \<rparr>)"
  using assms by (simp add: handleSubmit_def split: prod.splits)

lemma step_Submit_accepted:
  assumes "step (Submit t1) v = Some v1" and "inflight v1 = inflight v @ [p]"
  shows "p_content p = trim (input (state v))
       \<and> messages (state v1)
           = messages (state v)
             @ [\<lparr> msg_id = now t1, role = User, content = Json (JString (trim (input (state v)))),
                  created_at = iso t1, isStreaming = None \<rparr>]"
  using assms
  by (auto simp: handleSubmit_begin_def Let_def split: if_splits option.splits prod.splits)

lemma step_keeps_messages:
  assumes "keeps_messages e" and "step e v = Some v'"
  shows "messages (state v') = messages (state v) \<and> inflight v' = inflight v
       \<and> loading (state v') = loading (state v)"
  using assms
  by (cases e) (auto simp: keeps_messages_def split: if_splits option.splits sum.splits)

lemma run_keeps_messages:
  "list_all keeps_messages es \<Longrightarrow> run es v = Some v' \<Longrightarrow>
     messages (state v') = messages (state v) \<and> inflight v' = inflight v
     \<and> loading (state v') = loading (state v)"
proof (induction es arbitrary: v)
  case Nil
  then show ?case by simp
next
  case (Cons e es)
  from Cons.prems obtain v1 where 1: "step e v = Some v1" and 2: "run es v1 = Some v'"
    by (auto split: option.splits)
  from Cons.prems(1) have q: "keeps_messages e" "list_all keeps_messages es" by simp_all
  from step_keeps_messages [OF q(1) 1] Cons.IH [OF q(2) 2] show ?case by simp
qed

lemma step_Settle_state:
  "step (Settle p t result) v = Some v' \<Longrightarrow> state v' = handleSubmit_settle p t result (state v)"
  by (auto split: if_splits)


lemma submit_request_sendMessage:
  "submit_request P None p
     = (sendMessage P (p_sessionId p) (p_content p),
        [request_call P (sendMessage_path (p_sessionId p)) (sendMessage_options P (p_content p))])"
  by (simp add: submit_request_def)

text \<open>The sample views are reached from the mounted view; what the sample backends answer.\<close>

lemma run_to_awaiting:
  "run [Change (js ''hi'')] (mount (Some 7) False) = Some asked_hi"
  "step (Submit \<lparr> now = 1000, iso = js ''t1'' \<rparr>) asked_hi = Some awaiting_hi"
  "run [Suggestion (js ''Top 10 customers by total spend''), SelectSession (Some 8)] awaiting_hi
     = Some awaiting_hi_elsewhere"
    by (simp_all add: mount_def asked_hi_def awaiting_hi_def awaiting_hi_elsewhere_def hi_message_def
          hi_in_7_def controls_disabled_def handleSubmit_begin_def Let_def trim_def js_def
          isWhiteSpace_def suggestions_def)

lemma sendMessage_samples:
  "sendMessage failing_backend 7 (js ''hi'')
     = Inl (Thrown Error (js ''Request failed (500): Internal Server Error''))"
  "sendMessage answering_backend 7 (js ''hi'') = Inr select_one"
  "sendMessage null_backend 7 (js ''hi'') = Inr JNull"
  by (simp_all add: sendMessage_def request_def request_settle_def failing_backend_def
        answering_backend_def null_backend_def answering_def ok_def toString_def digits.simps js_def)




text \<open>
  C2, as the code has it. Take a submission that the guard lets through and whose
  request returns a body, and let the events of the view between its start and its
  settling be ones that leave the message list alone (no load of the list settles, the
  session is not cleared). Then exactly one call was issued, carrying the trimmed text,
  and the settled view's list is the old list, then the user message with that text,
  then right after it the assistant message whose text is the body's \<open>sql\<close>: the SQL
  string when the body is a \<open>ChatResponse\<close>. (For the body \<open>null\<close> reading \<open>res.sql\<close>
  throws, and no assistant message is added.) The success branch appends its assistant
  message at the end of the list it finds.
\<close>

theorem handleSubmit_success:
  assumes "step (Submit t1) v = Some v1" and "inflight v1 = inflight v @ [p]"
    and "list_all keeps_messages es" and "run es v1 = Some v2"
    and "sendMessage P (p_sessionId p) (p_content p) = Inr res"
    and "step (Settle p t2 (fst (submit_request P None p))) v2 = Some v3"
  shows "p_content p = trim (input (state v))
       \<and> snd (submit_request P None p)
           = [request_call P (sendMessage_path (p_sessionId p)) (sendMessage_options P (p_content p))]
       \<and> messages (state v3)
           = messages (state v)
             @ [\<lparr> msg_id = now t1, role = User, content = Json (JString (trim (input (state v)))),
                  created_at = iso t1, isStreaming = None \<rparr>]
             @ (case read_sql res of
                  Inr sql_value \<Rightarrow>
                    [\<lparr> msg_id = now t2 + 1, role = Assistant, content = sql_value,
                       created_at = iso t2, isStreaming = Some (p_streaming p) \<rparr>]
                | Inl thrown \<Rightarrow> [])
       \<and> (ChatResponse res \<longrightarrow>
            (\<exists>entries q. res = JObject entries \<and> own_property entries (js ''sql'') = Some (JString q)
                        \<and> read_sql res = Inr (Json (JString q))))
       \<and> lastSql (state v3) = nullable res
       \<and> \<not> loading (state v3)
       \<and> messages (handleSubmit_settle p' t' (Inr res') s')
           = messages s'
             @ (case read_sql res' of
                  Inr sql_value \<Rightarrow>
                    [\<lparr> msg_id = now t' + 1, role = Assistant, content = sql_value,
                       created_at = iso t', isStreaming = Some (p_streaming p') \<rparr>]
                | Inl thrown \<Rightarrow> [])"
proof -
  note b = step_Submit_accepted [OF assms(1,2)]
  from run_keeps_messages [OF assms(3,4)] have k: "messages (state v2) = messages (state v1)"
    by simp
  from assms(5) have r: "fst (submit_request P None p) = Inr res"
    by (simp add: submit_request_sendMessage)
  have f: "messages (handleSubmit_settle q t (Inr j) s)
           = messages s
             @ (case read_sql j of
                  Inr sql_value \<Rightarrow>
                    [\<lparr> msg_id = now t + 1, role = Assistant, content = sql_value,
                       created_at = iso t, isStreaming = Some (p_streaming q) \<rparr>]
                | Inl thrown \<Rightarrow> [])" for q t j s
    by (simp add: handleSubmit_settle_def Let_def split: sum.splits)
  have g: "lastSql (handleSubmit_settle q t (Inr j) s) = nullable j
           \<and> \<not> loading (handleSubmit_settle q t (Inr j) s)" for q t j s
    by (simp add: handleSubmit_settle_def Let_def split: sum.splits)
  have c: "\<exists>entries q. res = JObject entries \<and> own_property entries (js ''sql'') = Some (JString q)
                        \<and> read_sql res = Inr (Json (JString q))" if "ChatResponse res"
  proof -
    from that obtain entries where r: "res = JObject entries"
      by (cases res) (simp_all add: ChatResponse_def)
    with that
    have "case own_property entries (js ''sql'') of Some (JString s) \<Rightarrow> True | _ \<Rightarrow> False"
      by (simp add: ChatResponse_def)
    then obtain q where "own_property entries (js ''sql'') = Some (JString q)"
      by (cases "own_property entries (js ''sql'')";
          cases "the (own_property entries (js ''sql''))") simp_all
    with r show ?thesis by (simp add: read_sql_def)
  qed
  from step_Settle_state [OF assms(6)] r
  have s: "state v3 = handleSubmit_settle p t2 (Inr res) (state v2)" by simp
  show ?thesis
    using b k c f [of p t2 res "state v2"] f [of p' t' res' s'] g [of p t2 res "state v2"]
    by (simp add: s submit_request_sendMessage)
qed

text \<open>
  The question \<open>"hi"\<close> in session 7 with a backend that answers \<open>SELECT 1;\<close>; while it awaits,
  a suggestion is clicked and session 8 is selected.
\<close>

theorem handleSubmit_success_witness:
  "ChatResponse select_one
   \<and> step (Settle hi_in_7 \<lparr> now = 2000, iso = js ''t2'' \<rparr>
           (fst (submit_request answering_backend None hi_in_7))) awaiting_hi_elsewhere
     = Some (awaiting_hi_elsewhere
               \<lparr> state := handleSubmit_settle hi_in_7 \<lparr> now = 2000, iso = js ''t2'' \<rparr>
                             (Inr select_one) (state awaiting_hi_elsewhere),
                 inflight := [] \<rparr>)
   \<and> messages (handleSubmit_settle hi_in_7 \<lparr> now = 2000, iso = js ''t2'' \<rparr>
                             (Inr select_one) (state awaiting_hi_elsewhere))
     = [hi_message,
        \<lparr> msg_id = 2001, role = Assistant, content = Json (JString (js ''SELECT 1;'')),
          created_at = js ''t2'', isStreaming = Some True \<rparr>]"
proof -
  have h2: "inflight awaiting_hi = inflight asked_hi @ [hi_in_7]"
    by (simp add: awaiting_hi_def asked_hi_def)
  have h3: "list_all keeps_messages
              [Suggestion (js ''Top 10 customers by total spend''), SelectSession (Some 8)]"
    by (simp add: keeps_messages_def)
  have h5: "sendMessage answering_backend (p_sessionId hi_in_7) (p_content hi_in_7) = Inr select_one"
    by (simp add: hi_in_7_def sendMessage_samples)
  have h6: "step (Settle hi_in_7 \<lparr> now = 2000, iso = js ''t2'' \<rparr>
                   (fst (submit_request answering_backend None hi_in_7))) awaiting_hi_elsewhere
     = Some (awaiting_hi_elsewhere
               \<lparr> state := handleSubmit_settle hi_in_7 \<lparr> now = 2000, iso = js ''t2'' \<rparr>
                             (Inr select_one) (state awaiting_hi_elsewhere),
                 inflight := [] \<rparr>)"
    using h5 by (simp add: submit_request_def awaiting_hi_elsewhere_def)
  have c: "ChatResponse select_one"
    by (simp add: ChatResponse_def select_one_def own_property_def js_def)
  have q: "read_sql select_one = Inr (Json (JString (js ''SELECT 1;'')))"
    by (simp add: read_sql_def select_one_def own_property_def js_def)
  show ?thesis
    using c q h6 handleSubmit_success [OF run_to_awaiting(2) h2 h3 run_to_awaiting(3) h5 h6]
    by (simp add: asked_hi_def awaiting_hi_elsewhere_def hi_message_def hi_in_7_def trim_def
          js_def isWhiteSpace_def)
qed

text \<open>
  C2 as stated fails. When the load of the history that the mounted view has issued
  settles while the request awaits, the list afterwards holds the assistant message
  alone, not after its user message. And to a 200 response with the body \<open>null\<close> no
  assistant message is added at all.
\<close>

theorem handleSubmit_success_load_counterexample:
  "sendMessage answering_backend 7 (js ''hi'') = Inr select_one
   \<and> map_option (\<lambda>v. messages (state v))
       (run [Change (js ''hi''), Submit \<lparr> now = 1000, iso = js ''t1'' \<rparr>,
             Loaded 7 (Inr []),
             Settle hi_in_7 \<lparr> now = 2000, iso = js ''t2'' \<rparr>
               (fst (submit_request answering_backend None hi_in_7))]
          (mount (Some 7) False))
     = Some [\<lparr> msg_id = 2001, role = Assistant, content = Json (JString (js ''SELECT 1;'')),
                created_at = js ''t2'', isStreaming = Some True \<rparr>]
   \<and> sendMessage null_backend 7 (js ''hi'') = Inr JNull
   \<and> map_option (\<lambda>v. messages (state v))
       (run [Change (js ''hi''), Submit \<lparr> now = 1000, iso = js ''t1'' \<rparr>,
             Settle hi_in_7 \<lparr> now = 2000, iso = js ''t2'' \<rparr>
               (fst (submit_request null_backend None hi_in_7))]
          (mount (Some 7) False))
     = Some [\<lparr> msg_id = 1000, role = User, content = Json (JString (js ''hi'')),
                created_at = js ''t1'', isStreaming = None \<rparr>]"
  by (simp add: mount_def controls_disabled_def handleSubmit_begin_def Let_def trim_def js_def
        isWhiteSpace_def hi_in_7_def submit_request_def sendMessage_def request_def
        request_settle_def answering_backend_def null_backend_def answering_def ok_def
        handleSubmit_settle_def read_sql_def select_one_def own_property_def nullable_def)

subsection \<open>One submission at a time\<close>

lemma step_single_flight:
  assumes "single_flight v" and "step e v = Some v'"
  shows "single_flight v'"
proof (cases e)
  case (Submit t)
  with assms(2) have en: "\<not> controls_disabled v" by (auto split: if_splits)
  then have nl: "\<not> loading (state v)" by (simp add: controls_disabled_def)
  with assms(1) have "inflight v = []" by (simp add: single_flight_def)
  with Submit assms(2) en nl show ?thesis
    by (auto simp: single_flight_def handleSubmit_begin_def Let_def
          split: if_splits option.splits prod.splits)
next
  case (Settle p t r)
  with assms(2) have "p \<in> set (inflight v)" by (auto split: if_splits)
  moreover from assms(1) have "length (inflight v) \<le> 1" by (simp add: single_flight_def)
  ultimately have "inflight v = [p]" by (cases "inflight v") auto
  moreover have "\<not> loading (handleSubmit_settle p t r (state v))"
    by (cases r) (simp_all add: handleSubmit_settle_def Let_def split: sum.splits)
  ultimately show ?thesis
    using Settle assms(2) by (auto simp: single_flight_def split: if_splits)
next
  case (Change x)
  with assms show ?thesis by (auto simp: single_flight_def split: if_splits)
next
  case (Suggestion x)
  with assms show ?thesis by (auto simp: single_flight_def split: if_splits)
next
  case (SelectSession sid)
  with assms show ?thesis by (auto simp: single_flight_def split: if_splits option.splits)
next
  case (Loaded n r)
  with assms show ?thesis by (auto simp: single_flight_def split: if_splits sum.splits)
next
  case (MotionPreference b)
  with assms show ?thesis by (auto simp: single_flight_def)
qed

lemma run_single_flight:
  "single_flight v \<Longrightarrow> run es v = Some v' \<Longrightarrow> single_flight v'"
proof (induction es arbitrary: v)
  case Nil
  then show ?case by simp
next
  case (Cons e es)
  then show ?case by (auto split: option.splits dest: step_single_flight)
qed

lemma mount_single_flight: "single_flight (mount sid reduced)"
  by (simp add: single_flight_def mount_def)

text \<open>
  C10. In every state that the mounted view reaches, at most one submission is awaiting.
  While one is awaiting, \<open>loading\<close> is set, the textarea and the send button are
  disabled, and a submit event cannot occur: no second submission starts before the
  first has settled. Once nothing is awaiting, \<open>loading\<close> is cleared again.
\<close>

theorem one_submission_in_flight:
  assumes "run es (mount sid reduced) = Some v"
  shows "length (inflight v) \<le> 1
       \<and> (inflight v \<noteq> [] \<longrightarrow>
            loading (state v) \<and> controls_disabled v \<and> step (Submit t) v = None)
       \<and> (inflight v = [] \<longrightarrow> \<not> loading (state v))"
  using run_single_flight [OF mount_single_flight assms]
  by (auto simp: single_flight_def controls_disabled_def)

text \<open>Typing \<open>"hi"\<close> and submitting in session 7: one submission awaits, no second one starts.\<close>

theorem one_submission_in_flight_witness:
  "run [Change (js ''hi''), Submit \<lparr> now = 1000, iso = js ''t1'' \<rparr>] (mount (Some 7) False)
     = Some \<lparr> sessionId = Some 7, prefersReducedMotion = False,
              state = \<lparr> messages = [\<lparr> msg_id = 1000, role = User, content = Json (JString (js ''hi'')),
                                       created_at = js ''t1'', isStreaming = None \<rparr>],
                        input = [], loading = True, error = None, lastSql = None \<rparr>,
              inflight = [\<lparr> p_sessionId = 7, p_content = js ''hi'', p_streaming = True \<rparr>],
              loads = [7] \<rparr>
   \<and> step (Submit \<lparr> now = 1001, iso = js ''t2'' \<rparr>)
        \<lparr> sessionId = Some 7, prefersReducedMotion = False,
              state = \<lparr> messages = [\<lparr> msg_id = 1000, role = User, content = Json (JString (js ''hi'')),
                                       created_at = js ''t1'', isStreaming = None \<rparr>],
                        input = [], loading = True, error = None, lastSql = None \<rparr>,
              inflight = [\<lparr> p_sessionId = 7, p_content = js ''hi'', p_streaming = True \<rparr>],
              loads = [7] \<rparr> = None
   \<and> inflight (mount (Some 7) False) = []
   \<and> \<not> loading (state (mount (Some 7) False))"
proof -
  have r: "run [Change (js ''hi''), Submit \<lparr> now = 1000, iso = js ''t1'' \<rparr>] (mount (Some 7) False)
     = Some \<lparr> sessionId = Some 7, prefersReducedMotion = False,
              state = \<lparr> messages = [\<lparr> msg_id = 1000, role = User, content = Json (JString (js ''hi'')),
                                       created_at = js ''t1'', isStreaming = None \<rparr>],
                        input = [], loading = True, error = None, lastSql = None \<rparr>,
              inflight = [\<lparr> p_sessionId = 7, p_content = js ''hi'', p_streaming = True \<rparr>],
              loads = [7] \<rparr>"
    by (simp add: mount_def controls_disabled_def handleSubmit_begin_def Let_def trim_def js_def
          isWhiteSpace_def)
  have e: "run [] (mount (Some 7) False) = Some (mount (Some 7) False)" by simp
  have i: "inflight (mount (Some 7) False) = []" by (simp add: mount_def)
  show ?thesis
    using r i one_submission_in_flight [OF r, of "\<lparr> now = 1001, iso = js ''t2'' \<rparr>"]
      one_submission_in_flight [OF e]
    by simp
qed

section \<open>Properties of the application shell\<close>

text \<open>
  C9. Selecting a schema (or none) sets \<open>activeSchemaId\<close> and nothing else: the session
  list with every session's own \<open>schema_id\<close>, the active session, the schema list, the
  ready flag and the error are as before. The chat view receives the same \<open>sessionId\<close>,
  so its effect does not run and its messages stay. A session created afterwards from
  the active schema carries the selected identifier, and is put in front of the
  unchanged list.
\<close>

theorem handleChangeSchema_frame:
  "activeSchemaId (handleChangeSchema x s) = x
   \<and> sessions (handleChangeSchema x s) = sessions s
   \<and> activeSessionId (handleChangeSchema x s) = activeSessionId s
   \<and> schemas (handleChangeSchema x s) = schemas s
   \<and> ready (handleChangeSchema x s) = ready s
   \<and> app_error (handleChangeSchema x s) = app_error s
   \<and> (sessionId v = activeSessionId s \<longrightarrow>
        step (SelectSession (activeSessionId (handleChangeSchema x s))) v = None)
   \<and> handleCreateSession_payload (activeSchemaId (handleChangeSchema x s))
        = \<lparr> new_title = Some [], new_schema_id = x \<rparr>
   \<and> sessions (handleCreateSession_settle (Inr created) (handleChangeSchema x s))
        = created # sessions s"
  by (simp add: handleChangeSchema_def handleCreateSession_payload_def handleCreateSession_settle_def)

text \<open>Selecting schema 2 while session 7 is shown.\<close>

theorem handleChangeSchema_frame_witness:
  "step (SelectSession (activeSessionId (handleChangeSchema (Some 2)
          \<lparr> ready = True, schemas = [], sessions = [], activeSessionId = Some 7,
            activeSchemaId = Some 1, app_error = None \<rparr>))) (mount (Some 7) False) = None
   \<and> activeSchemaId (handleChangeSchema (Some 2)
          \<lparr> ready = True, schemas = [], sessions = [], activeSessionId = Some 7,
            activeSchemaId = Some 1, app_error = None \<rparr>) = Some 2"
  using handleChangeSchema_frame [of "Some 2" "\<lparr> ready = True, schemas = [], sessions = [], activeSessionId = Some 7,
            activeSchemaId = Some 1, app_error = None \<rparr>" "mount (Some 7) False"]
  by (simp add: mount_def)

section \<open>Properties of the generation pipeline\<close>

subsection \<open>The context window\<close>

text \<open>
  C3. For a session with at least 5 prior turns, the context window built after the
  question has been recorded has exactly 5 turns: the last 4 prior turns followed by the
  new user turn. It is the trailing segment of the history, in the history's own order
  (oldest first): its i-th turn is the history's turn at the same distance from the end,
  and when the history is ordered by \<open>created_at\<close> and \<open>sequence_id\<close>, so is the window.
\<close>

theorem context_window_trailing:
  assumes "5 \<le> length (store session_id)"
  shows "length (context_window (record_question store session_id question seq created) session_id) = 5
       \<and> context_window (record_question store session_id question seq created) session_id
           = drop (length (store session_id) - 4) (store session_id)
             @ [\<lparr> sequence_id = seq, turn_role = User, turn_text = question,
                  turn_created_at = created \<rparr>]
       \<and> suffix (context_window (record_question store session_id question seq created) session_id)
                ((record_question store session_id question seq created) session_id)
       \<and> (\<forall>i < 5. context_window (record_question store session_id question seq created) session_id ! i
             = (store session_id
                 @ [\<lparr> sequence_id = seq, turn_role = User, turn_text = question,
                      turn_created_at = created \<rparr>])
               ! (length (store session_id) - 4 + i))
       \<and> (sorted_wrt turn_before ((record_question store session_id question seq created) session_id)
            \<longrightarrow> sorted_wrt turn_before
                  (context_window (record_question store session_id question seq created) session_id))"
proof -
  have "sorted_wrt turn_before (context_window (record_question store session_id question seq created) session_id)"
    if "sorted_wrt turn_before ((record_question store session_id question seq created) session_id)"
    using that unfolding context_window_def HistoryStore_last_def by (rule sorted_wrt_drop)
  then show ?thesis
    using assms
    by (auto simp: context_window_def record_question_def HistoryStore_append_def
          HistoryStore_last_def K_def suffix_drop Suc_diff_le nth_append)
qed

text \<open>Twelve prior turns: the window holds turns 9 to 12 and the new turn 13.\<close>

theorem context_window_trailing_witness:
  "5 \<le> length (twelve_turns 1)
   \<and> sorted_wrt turn_before ((record_question twelve_turns 1 ''q'' 13 113) 1)
   \<and> map sequence_id (context_window (record_question twelve_turns 1 ''q'' 13 113) 1)
       = [9, 10, 11, 12, 13]
   \<and> sorted_wrt turn_before (context_window (record_question twelve_turns 1 ''q'' 13 113) 1)"
proof -
  have h: "5 \<le> length (twelve_turns 1)" by (simp add: twelve_turns_def)
  have d: "drop (length (twelve_turns 1) - 4) (twelve_turns 1)
           = map (\<lambda>i. \<lparr> sequence_id = i, turn_role = (if even i then Assistant else User),
                          turn_text = ''t'', turn_created_at = 100 + i \<rparr>) [9..<13]"
    by (simp add: twelve_turns_def drop_map)
  have s: "sorted_wrt turn_before ((record_question twelve_turns 1 ''q'' 13 113) 1)"
    by (simp add: record_question_def HistoryStore_append_def twelve_turns_def upt_rec
          sorted_wrt_append turn_before_def)
  show ?thesis
    using h s context_window_trailing [of twelve_turns 1 "''q''" 13 113]
    by (simp add: d upt_rec turn_before_def)
qed

subsection \<open>The output parser\<close>

lemma find_delimiter_Some:
  "find_delimiter pat s = Some (b, a) \<Longrightarrow> s = b @ pat @ a"
proof (induction s arbitrary: b)
  case Nil
  then show ?case by (simp split: if_splits)
next
  case (Cons c cs)
  show ?case
  proof (cases "prefix pat (c # cs)")
    case True
    with Cons.prems have "b = []" "a = drop (length pat) (c # cs)" by simp_all
    moreover from True have "c # cs = pat @ drop (length pat) (c # cs)"
      by (metis append_eq_conv_conj prefix_def)
    ultimately show ?thesis by simp
  next
    case False
    with Cons.prems obtain b' where "find_delimiter pat cs = Some (b', a)" "b = c # b'"
      by (auto split: option.splits)
    with Cons.IH show ?thesis by simp
  qed
qed

lemma find_delimiter_None:
  "find_delimiter pat s = None \<longleftrightarrow> \<not> sublist pat s"
  by (induction s) (auto simp: sublist_Cons_right split: option.splits)

lemma find_delimiter_first:
  "pat \<noteq> [] \<Longrightarrow> \<not> sublist pat (b @ butlast pat) \<Longrightarrow> find_delimiter pat (b @ pat @ a) = Some (b, a)"
proof (induction b)
  case Nil
  then obtain p ps where "pat = p # ps" by (cases pat) auto
  then show ?case by simp
next
  case (Cons c b)
  have np: "\<not> prefix pat (c # b @ pat @ a)"
  proof
    assume p: "prefix pat (c # b @ pat @ a)"
    have "c # b @ pat @ a = (c # b @ butlast pat) @ (last pat # a)"
      using Cons.prems(1) by simp
    then have "prefix (c # b @ butlast pat) (c # b @ pat @ a)"
      unfolding prefix_def by blast
    moreover have "length pat \<le> length (c # b @ butlast pat)" by simp
    ultimately have "prefix pat (c # b @ butlast pat)"
      using p prefix_length_prefix by blast
    then show False using Cons.prems(2) by auto
  qed
  from Cons.prems(2) have "\<not> sublist pat (b @ butlast pat)"
    by (simp add: sublist_Cons_right)
  with Cons.IH Cons.prems(1) have "find_delimiter pat (b @ pat @ a) = Some (b, a)" by simp
  with np show ?case by simp
qed

lemma sublist_across:
  assumes "c \<notin> set pat"
  shows "sublist pat (u @ c # v) \<longleftrightarrow> sublist pat u \<or> sublist pat v"
proof
  assume "sublist pat (u @ c # v)"
  then consider "sublist pat u" | "sublist pat (c # v)"
    | xs1 xs2 where "pat = xs1 @ xs2" "suffix xs1 u" "prefix xs2 (c # v)"
    by (auto simp: sublist_append)
  then show "sublist pat u \<or> sublist pat v"
  proof cases
    case 1 then show ?thesis by simp
  next
    case 2
    then have "prefix pat (c # v) \<or> sublist pat v" by (simp add: sublist_Cons_right)
    moreover have "prefix pat (c # v) \<Longrightarrow> pat = []"
      using assms by (cases pat) auto
    ultimately show ?thesis by auto
  next
    case 3
    have "xs2 = []" using 3(1,3) assms by (cases xs2) auto
    with 3 show ?thesis by auto
  qed
next
  assume "sublist pat u \<or> sublist pat v"
  then show "sublist pat (u @ c # v)"
    by (metis sublist_append sublist_Cons_right)
qed

lemma strip_padded:
  assumes "is_space c" and "is_space d"
  shows "strip (c # s @ [d]) = strip s"
proof -
  have l: "dropWhile is_space (c # s @ [d]) = dropWhile is_space (s @ [d])"
    using assms by simp
  show ?thesis
  proof (cases "\<exists>x \<in> set s. \<not> is_space x")
    case True
    then have "dropWhile is_space (s @ [d]) = dropWhile is_space s @ [d]"
      by (auto simp: dropWhile_append1)
    with assms l show ?thesis by (simp add: strip_def)
  next
    case False
    then have e1: "dropWhile is_space s = []" by auto
    from False assms have e2: "dropWhile is_space (s @ [d]) = []" by auto
    show ?thesis unfolding strip_def l e1 e2 by simp
  qed
qed

lemma find_delimiter_least:
  "find_delimiter pat s = Some (b1, r) \<Longrightarrow> s = a @ pat @ x \<Longrightarrow> length b1 \<le> length a"
proof (induction s arbitrary: b1 a)
  case Nil
  then show ?case by (simp split: if_splits)
next
  case (Cons c cs)
  show ?case
  proof (cases "prefix pat (c # cs)")
    case True
    with Cons.prems(1) show ?thesis by simp
  next
    case False
    with Cons.prems(1) obtain b' where b': "find_delimiter pat cs = Some (b', r)" "b1 = c # b'"
      by (auto split: option.splits)
    from False Cons.prems(2) obtain a' where a': "a = c # a'" "cs = a' @ pat @ x"
      by (cases a) auto
    from Cons.IH [OF b'(1) a'(2)] b'(2) a'(1) show ?thesis by simp
  qed
qed

lemma fence_newline: "CHR 0x0A \<notin> set fence" "is_space (CHR 0x0A)" "fence \<noteq> []"
  by (simp_all add: fence_def is_space_def)

lemma find_closing_fence:
  assumes "\<not> sublist fence s"
  shows "find_delimiter fence (CHR 0x0A # s @ CHR 0x0A # fence) = Some (CHR 0x0A # s @ [CHR 0x0A], [])"
proof -
  have "\<not> sublist fence (butlast fence)"
    by (auto dest: sublist_length_le simp: fence_def)
  with assms have "\<not> sublist fence (s @ CHR 0x0A # butlast fence)"
    using sublist_across [OF fence_newline(1)] by blast
  then have "\<not> sublist fence ([] @ CHR 0x0A # (s @ CHR 0x0A # butlast fence))"
    using sublist_across [OF fence_newline(1), of "[]"] by (simp add: fence_newline(3))
  then have "\<not> sublist fence ((CHR 0x0A # s @ [CHR 0x0A]) @ butlast fence)" by simp
  from find_delimiter_first [OF fence_newline(3) this, of "[]"] show ?thesis by simp
qed

lemma find_opening_fence:
  "find_delimiter sql_fence (sql_fence @ rest) = Some ([], rest)"
  by (simp add: sql_fence_def fence_def)

text \<open>
  C4. For every statement that does not contain the fence, parsing the statement wrapped
  as \<open>```sql\<close>, newline, statement, newline, \<open>```\<close> yields the statement stripped of
  surrounding whitespace.
\<close>

theorem parse_roundtrip:
  assumes "\<not> sublist fence sql_statement"
  shows "result_sql (parse (sql_fence @ CHR 0x0A # sql_statement @ CHR 0x0A # fence))
           = strip sql_statement"
  using find_closing_fence [OF assms] find_opening_fence strip_padded [OF fence_newline(2) fence_newline(2)]
  by (simp add: parse_def fenced_block_def)

text \<open>The statement of the end-to-end scenario, padded with blanks.\<close>

theorem parse_roundtrip_witness:
  "\<not> sublist fence ''  SELECT date(created_at), SUM(total) FROM orders GROUP BY 1; ''
   \<and> result_sql (parse (sql_fence @ CHR 0x0A # ''  SELECT date(created_at), SUM(total) FROM orders GROUP BY 1; '' @ CHR 0x0A # fence))
       = ''SELECT date(created_at), SUM(total) FROM orders GROUP BY 1;''"
proof -
  have h: "\<not> sublist fence ''  SELECT date(created_at), SUM(total) FROM orders GROUP BY 1; ''"
    by (simp add: find_delimiter_None [symmetric] fence_def)
  show ?thesis using h parse_roundtrip [OF h]
    by (simp add: strip_def is_space_def)
qed

lemma fenced_block_pair:
  assumes "fenced_block opening raw = Some i" and "prefix fence opening"
  shows "\<exists>a b c. raw = a @ fence @ b @ fence @ c"
proof -
  from assms(1) obtain b1 r i' a2 where
    1: "find_delimiter opening raw = Some (b1, r)" and 2: "find_delimiter fence r = Some (i', a2)"
    by (auto simp: fenced_block_def split: option.splits)
  from assms(2) obtain tag where "opening = fence @ tag" by (auto simp: prefix_def)
  with find_delimiter_Some [OF 1] find_delimiter_Some [OF 2]
  have "raw = b1 @ fence @ (tag @ i') @ fence @ a2" by simp
  then show ?thesis by blast
qed

lemma has_fenced_block_iff:
  "has_fenced_block raw \<longleftrightarrow> (\<exists>a b c. raw = a @ fence @ b @ fence @ c)"
proof
  assume "has_fenced_block raw"
  then have "\<exists>i. fenced_block fence raw = Some i"
    by (auto simp: has_fenced_block_def fenced_block_def split: option.splits)
  then show "\<exists>a b c. raw = a @ fence @ b @ fence @ c"
    using fenced_block_pair by blast
next
  assume "\<exists>a b c. raw = a @ fence @ b @ fence @ c"
  then obtain a b c where raw: "raw = a @ fence @ b @ fence @ c" by blast
  then have "sublist fence raw" by auto
  then obtain b1 r where 1: "find_delimiter fence raw = Some (b1, r)"
    using find_delimiter_None [of fence raw] by (cases "find_delimiter fence raw") auto
  have raw1: "raw = b1 @ fence @ r" by (rule find_delimiter_Some [OF 1])
  have le: "length b1 \<le> length a" by (rule find_delimiter_least [OF 1 raw])
  have "r = drop (length b1 + length fence) raw" using raw1 by simp
  also have "\<dots> = drop (length b1 + length fence) ((a @ fence) @ b @ fence @ c)"
    using raw by simp
  also have "\<dots> = drop (length b1 + length fence) (a @ fence) @ b @ fence @ c"
    using le by simp
  finally have "sublist fence r"
    by (metis append.assoc sublist_appendI)
  then have "find_delimiter fence r \<noteq> None" by (simp add: find_delimiter_None)
  with 1 show "has_fenced_block raw" by (simp add: has_fenced_block_def)
qed

text \<open>
  C5. The parser is a total function: every input has a result, whose \<open>raw_output\<close> is
  the input and whose explanation is null. When the input holds no fenced block (no two
  fences that do not overlap), the result's SQL is the whole input trimmed; for the
  empty input it is the empty string.
\<close>

theorem parse_fallback:
  "(\<not> (\<exists>a b c. raw = a @ fence @ b @ fence @ c) \<longrightarrow>
      parse raw = \<lparr> result_sql = strip raw, result_explanation = None, raw_output = raw \<rparr>)
   \<and> parse [] = \<lparr> result_sql = [], result_explanation = None, raw_output = [] \<rparr>
   \<and> raw_output (parse raw) = raw
   \<and> result_explanation (parse raw) = None"
proof -
  have "parse raw = \<lparr> result_sql = strip raw, result_explanation = None, raw_output = raw \<rparr>"
    if h: "\<not> (\<exists>a b c. raw = a @ fence @ b @ fence @ c)"
  proof -
    have "fenced_block sql_fence raw = None"
      using h fenced_block_pair [of sql_fence raw]
      by (cases "fenced_block sql_fence raw") (auto simp: sql_fence_def)
    moreover have "fenced_block fence raw = None"
      using h fenced_block_pair [of fence raw] by (cases "fenced_block fence raw") auto
    ultimately show ?thesis by (simp add: parse_def)
  qed
  moreover have "parse [] = \<lparr> result_sql = [], result_explanation = None, raw_output = [] \<rparr>"
    by (simp add: parse_def fenced_block_def strip_def sql_fence_def fence_def)
  ultimately show ?thesis by (simp add: parse_def)
qed

text \<open>A text without fences comes back whole.\<close>

theorem parse_fallback_witness:
  "parse ''no fences here''
     = \<lparr> result_sql = ''no fences here'', result_explanation = None,
         raw_output = ''no fences here'' \<rparr>"
proof -
  have h: "\<not> (\<exists>a b c. ''no fences here'' = a @ fence @ b @ fence @ c)"
    unfolding has_fenced_block_iff [symmetric]
    by (simp add: has_fenced_block_def fence_def)
  show ?thesis using h parse_fallback [of "''no fences here''"] by (simp add: strip_def is_space_def)
qed

end
